theory Spec2Isabelle
  imports Main "HOL-Library.Sublist"
begin

section \<open>Strings\<close>

text \<open>
  JavaScript strings are modelled as \<^typ>\<open>string\<close>, one \<^typ>\<open>char\<close> per code unit
  of the Latin-1 range.
\<close>

text \<open>\<^verbatim>\<open>String.prototype.toLowerCase\<close> on one code unit: A-Z and the accented capitals
  of Latin-1 (0xC0-0xDE without the multiplication sign 0xD7) move up by 32.\<close>

definition lowerChar :: "char \<Rightarrow> char" where
  "lowerChar c =
     (let k = (of_char c :: nat)
      in if (65 \<le> k \<and> k \<le> 90) \<or> (192 \<le> k \<and> k \<le> 222 \<and> k \<noteq> 215)
         then char_of (k + 32) else c)"

definition toLowerCase :: "string \<Rightarrow> string" where
  "toLowerCase s = map lowerChar s"

text \<open>\<^verbatim>\<open>String.prototype.toUpperCase\<close> on a tag name given in lower-case ASCII, as
  \<^verbatim>\<open>document.createElement\<close> uses it to form \<^verbatim>\<open>tagName\<close>.\<close>

definition upperChar :: "char \<Rightarrow> char" where
  "upperChar c =
     (let k = (of_char c :: nat)
      in if 97 \<le> k \<and> k \<le> 122 then char_of (k - 32) else c)"

definition toUpperCase :: "string \<Rightarrow> string" where
  "toUpperCase s = map upperChar s"

text \<open>Decimal rendering of a non-negative integer, as string concatenation
  (\<^verbatim>\<open>"toclevel-" + level\<close>) and template literals produce it.\<close>

definition digitChar :: "nat \<Rightarrow> char" where
  "digitChar d = char_of (48 + d)"

fun string_of_nat :: "nat \<Rightarrow> string" where
  "string_of_nat n =
     (if n < 10 then [digitChar n] else string_of_nat (n div 10) @ [digitChar (n mod 10)])"

declare string_of_nat.simps [simp del]



section \<open>The DOM\<close>

text \<open>
  An element carries the properties the scripts read or write: \<^verbatim>\<open>tagName\<close>, the tokens of
  \<^verbatim>\<open>classList\<close>, its other attributes (\<^verbatim>\<open>id\<close>, \<^verbatim>\<open>src\<close>, \<^verbatim>\<open>data-post-uid\<close>), its inline
  \<^verbatim>\<open>style\<close> declarations and the measured \<^verbatim>\<open>offsetHeight\<close>. The document is a tree of
  elements and text nodes; an element reference held by a script is the path of child
  indices (into \<^verbatim>\<open>childNodes\<close>) that leads to it.
\<close>

record props =
  tagName :: string
  classList :: "string list"
  attributes :: "(string \<times> string) list"
  style :: "(string \<times> string) list"
  offsetHeight :: nat

datatype node =
    Element props (childNodes: "node list")
  | Text string

type_synonym path = "nat list"

datatype error = TypeError

fun isElement :: "node \<Rightarrow> bool" where
  "isElement (Element pr cs) = True"
| "isElement (Text t) = False"

text \<open>\<^verbatim>\<open>element.children\<close>: the child nodes that are elements.\<close>

definition children :: "node \<Rightarrow> node list" where
  "children n = filter isElement (childNodes n)"

fun nodeCount :: "node \<Rightarrow> nat" where
  "nodeCount (Text t) = 1"
| "nodeCount (Element pr cs) = Suc (sum_list (map nodeCount cs))"

fun subtree_at :: "node \<Rightarrow> path \<Rightarrow> node option" where
  "subtree_at n [] = Some n"
| "subtree_at (Text t) (i # p) = None"
| "subtree_at (Element pr cs) (i # p) = (if i < length cs then subtree_at (cs ! i) p else None)"

text \<open>Mutating the object a reference points to: the subtree at the path is replaced by
  its updated version; a path that leads nowhere changes nothing.\<close>

fun update_at :: "path \<Rightarrow> (node \<Rightarrow> node) \<Rightarrow> node \<Rightarrow> node" where
  "update_at [] f n = f n"
| "update_at (i # p) f (Text t) = Text t"
| "update_at (i # p) f (Element pr cs) =
     (if i < length cs then Element pr (cs[i := update_at p f (cs ! i)]) else Element pr cs)"

fun update_props :: "(props \<Rightarrow> props) \<Rightarrow> node \<Rightarrow> node" where
  "update_props g (Element pr cs) = Element (g pr) cs"
| "update_props g (Text t) = Text t"

subsection \<open>Selectors\<close>

text \<open>The selectors the scripts use: a type selector (\<^verbatim>\<open>"ul"\<close>), a class selector
  (\<^verbatim>\<open>".toc"\<close>), and the lookup by \<^verbatim>\<open>id\<close> of \<^verbatim>\<open>getElementById\<close>. In an HTML document
  \<^verbatim>\<open>tagName\<close> is upper case and a type selector compares without regard to ASCII case.\<close>

datatype selector = TypeSel string | ClassSel string | IdSel string

fun matches :: "selector \<Rightarrow> props \<Rightarrow> bool" where
  "matches (TypeSel t) pr = (toLowerCase (tagName pr) = toLowerCase t)"
| "matches (ClassSel c) pr = (c \<in> set (classList pr))"
| "matches (IdSel i) pr = (map_of (attributes pr) ''id'' = Some i)"

text \<open>All matching elements of a subtree in document order (pre-order), the root of the
  subtree included, each as its path from that root.\<close>

fun selectAll :: "selector \<Rightarrow> node \<Rightarrow> path list"
  and selectAllList :: "selector \<Rightarrow> nat \<Rightarrow> node list \<Rightarrow> path list" where
  "selectAll s (Text t) = []"
| "selectAll s (Element pr cs) = (if matches s pr then [[]] else []) @ selectAllList s 0 cs"
| "selectAllList s i [] = []"
| "selectAllList s i (c # cs) = map ((#) i) (selectAll s c) @ selectAllList s (Suc i) cs"

text \<open>\<^verbatim>\<open>element.querySelector(sel)\<close>: the first matching descendant, or null.\<close>

definition querySelector :: "selector \<Rightarrow> node \<Rightarrow> path option" where
  "querySelector s n = (case selectAllList s 0 (childNodes n) of [] \<Rightarrow> None | p # ps \<Rightarrow> Some p)"

text \<open>\<^verbatim>\<open>document.querySelectorAll(sel)\<close> and \<^verbatim>\<open>document.querySelector(sel)\<close>: the document
  is given by its root element, which is itself a candidate.\<close>

definition document_querySelectorAll :: "selector \<Rightarrow> node \<Rightarrow> path list" where
  "document_querySelectorAll s doc = selectAll s doc"

definition document_querySelector :: "selector \<Rightarrow> node \<Rightarrow> path option" where
  "document_querySelector s doc = (case selectAll s doc of [] \<Rightarrow> None | p # ps \<Rightarrow> Some p)"

subsection \<open>Class lists, attributes, text\<close>

text \<open>\<^verbatim>\<open>classList.add\<close> appends the token unless it is there; \<^verbatim>\<open>classList.remove\<close>
  deletes it.\<close>

definition classList_add :: "string \<Rightarrow> props \<Rightarrow> props" where
  "classList_add c pr =
     (if c \<in> set (classList pr) then pr else pr\<lparr>classList := classList pr @ [c]\<rparr>)"

definition classList_remove :: "string \<Rightarrow> props \<Rightarrow> props" where
  "classList_remove c pr = pr\<lparr>classList := filter (\<lambda>x. x \<noteq> c) (classList pr)\<rparr>"

fun hasClass :: "string \<Rightarrow> node \<Rightarrow> bool" where
  "hasClass c (Element pr cs) = (c \<in> set (classList pr))"
| "hasClass c (Text t) = False"

text \<open>\<^verbatim>\<open>document.getElementById(id)\<close>: the first element in document order with that id.\<close>

definition getElementById :: "string \<Rightarrow> node \<Rightarrow> path option" where
  "getElementById i doc = document_querySelector (IdSel i) doc"

fun getAttribute :: "string \<Rightarrow> node \<Rightarrow> string option" where
  "getAttribute name (Element pr cs) = map_of (attributes pr) name"
| "getAttribute name (Text t) = None"

fun assign :: "string \<Rightarrow> string \<Rightarrow> (string \<times> string) list \<Rightarrow> (string \<times> string) list" where
  "assign name v [] = [(name, v)]"
| "assign name v ((k, x) # kvs) = (if k = name then (k, v) # kvs else (k, x) # assign name v kvs)"

definition setAttribute :: "string \<Rightarrow> string \<Rightarrow> node \<Rightarrow> node" where
  "setAttribute name v n = update_props (\<lambda>pr. pr\<lparr>attributes := assign name v (attributes pr)\<rparr>) n"


text \<open>\<^verbatim>\<open>textContent\<close>: reading concatenates the text of all descendants in document order;
  writing replaces all children by one text node, or by none for the empty string.\<close>

fun textContent :: "node \<Rightarrow> string" where
  "textContent (Text t) = t"
| "textContent (Element pr cs) = concat (map textContent cs)"

fun set_textContent :: "string \<Rightarrow> node \<Rightarrow> node" where
  "set_textContent s (Element pr cs) = Element pr (if s = [] then [] else [Text s])"
| "set_textContent s (Text t) = Text s"

text \<open>\<^verbatim>\<open>document.createElement(tag)\<close> in an HTML document: a fresh, detached element
  without classes, attributes or children.\<close>

definition createElement :: "string \<Rightarrow> node" where
  "createElement tag =
     Element \<lparr>tagName = toUpperCase tag, classList = [], attributes = [], style = [],
              offsetHeight = 0\<rparr> []"

text \<open>\<^verbatim>\<open>parent.insertBefore(newNode, parent.firstChild)\<close>: the new node becomes the first
  child, also when there was no child before.\<close>

fun insertBeforeFirstChild :: "node \<Rightarrow> node \<Rightarrow> node" where
  "insertBeforeFirstChild newNode (Element pr cs) = Element pr (newNode # cs)"
| "insertBeforeFirstChild newNode (Text t) = Text t"


subsection \<open>Events, timers, requests\<close>

text \<open>
  What a script does besides changing the tree is recorded in order as a list of effects:
  listeners added, timers set, requests started, form values written, lines logged. A
  path in an effect is the path of the element at the moment of the effect.
\<close>

datatype rejection = NetworkFailure | BodyNotJSON | PropertyOfNull

datatype handler =
    PreventFormEnter
  | SendReadCountRequest "string option"
  | FetchReplacementImage path

datatype target = Window | ElementAt path

datatype effect =
    AddEventListener target string handler
  | SetTimeout handler nat
  | Start handler
  | SetValue path string
  | ConsoleError string "rejection option"

record page =
  document :: node
  effects :: "effect list"

text \<open>A \<^verbatim>\<open>keypress\<close> event. The browser dispatches it as cancelable, so \<^verbatim>\<open>preventDefault()\<close>
  sets its canceled flag, which \<^verbatim>\<open>defaultPrevented\<close> reads.\<close>

record keyboardEvent =
  key :: string
  defaultPrevented :: bool

definition preventDefault :: "keyboardEvent \<Rightarrow> keyboardEvent" where
  "preventDefault event = event\<lparr>defaultPrevented := True\<rparr>"

section \<open>blogpost.js: the table of contents\<close>

text \<open>
  \<^verbatim>\<open>addTocLevelClass(ulElement, level)\<close> walks \<^verbatim>\<open>ulElement.children\<close>; text nodes are not
  among them. An \<^verbatim>\<open>li\<close> gets the class of the level, then \<^verbatim>\<open>item.querySelector("ul")\<close>
  picks the first \<^verbatim>\<open>ul\<close> below the item, and the walk goes on there one level deeper.
  The function changes nothing outside the subtree of \<^verbatim>\<open>ulElement\<close>, so it is a function
  from that subtree to its new version.
\<close>

function addTocLevelClass :: "node \<Rightarrow> nat \<Rightarrow> node" where
  "addTocLevelClass (Text t) level = Text t"
| "addTocLevelClass (Element pr items) level =
     Element pr (map (\<lambda>item.
       case item of
         Text t \<Rightarrow> Text t
       | Element ipr ics \<Rightarrow>
           if toLowerCase (tagName ipr) = ''li'' then
             (let item' = Element (classList_add (''toclevel-'' @ string_of_nat level) ipr) ics
              in case querySelector (TypeSel ''ul'') item' of
                   None \<Rightarrow> item'
                 | Some q \<Rightarrow>
                     (case subtree_at item' q of
                        None \<Rightarrow> item'
                      | Some nestedUl \<Rightarrow>
                          update_at q (\<lambda>_. addTocLevelClass nestedUl (level + 1)) item'))
           else item) items)"
  by pat_completeness auto

termination
proof (relation "measure (\<lambda>(n, level). nodeCount n)")
  show "wf (measure (\<lambda>(n, level). nodeCount n))"
    by simp
next
  fix pr :: props and items :: "node list" and level :: nat
    and item :: node and ipr :: props and ics :: "node list"
    and item' :: node and q :: path and nestedUl :: node
  assume mem: "item \<in> set items"
    and item: "item = Element ipr ics"
    and item': "item' = Element (classList_add (''toclevel-'' @ string_of_nat level) ipr) ics"
    and sub: "subtree_at item' q = Some nestedUl"
  have below: "nodeCount m \<le> nodeCount n" if "subtree_at n p = Some m" for n p m
    using that
  proof (induction n p rule: subtree_at.induct)
    case (3 pr cs i p)
    then have "i < length cs" and "subtree_at (cs ! i) p = Some m"
      by (auto split: if_splits)
    moreover from \<open>i < length cs\<close> have "nodeCount (cs ! i) \<le> sum_list (map nodeCount cs)"
      by (simp add: member_le_sum_list)
    ultimately show ?case
      using 3 by force
  qed auto
  have "nodeCount nestedUl \<le> nodeCount item'"
    using sub by (rule below)
  also have "nodeCount item' = nodeCount item"
    by (simp add: item item')
  also have "nodeCount item \<le> sum_list (map nodeCount items)"
    using mem by (simp add: member_le_sum_list)
  finally show "((nestedUl, level + 1), Element pr items, level) \<in> measure (\<lambda>(n, level). nodeCount n)"
    by simp
qed

text \<open>
  \<^verbatim>\<open>setupTableOfContents()\<close>. Looking up \<^verbatim>\<open>.toc\<close> may give null, and then
  \<^verbatim>\<open>tocContainer.querySelector\<close> throws a TypeError. \<open>tocBody\<close> is what the function does to
  the container it found. The heading goes in front of the children, so the list found
  at child index \<open>i\<close> is at index \<open>Suc i\<close> when \<^verbatim>\<open>addTocLevelClass\<close> is called on it.
\<close>

definition tocHeading :: node where
  "tocHeading = set_textContent ''Table of Contents'' (createElement ''h3'')"

text \<open>The heading as a node: an \<^verbatim>\<open>h3\<close> element with one text child.\<close>

definition tocHeadingNode :: node where
  "tocHeadingNode =
     Element \<lparr>tagName = ''H3'', classList = [], attributes = [], style = [], offsetHeight = 0\<rparr>
       [Text ''Table of Contents'']"

definition tocBody :: "node \<Rightarrow> node" where
  "tocBody tocContainer =
     (case querySelector (TypeSel ''ul'') tocContainer of
        None \<Rightarrow> tocContainer
      | Some [] \<Rightarrow> tocContainer
      | Some (i # u) \<Rightarrow>
          (case subtree_at tocContainer (i # u) of
             None \<Rightarrow> tocContainer
           | Some topLevelUl \<Rightarrow>
               if length (children topLevelUl) > 0 then
                 update_at (Suc i # u) (\<lambda>ul. addTocLevelClass ul 1)
                   (insertBeforeFirstChild tocHeading
                     (update_props (classList_remove ''d-none'') tocContainer))
               else tocContainer))"

definition setupTableOfContents :: "node \<Rightarrow> error + node" where
  "setupTableOfContents doc =
     (case document_querySelector (ClassSel ''toc'') doc of
        None \<Rightarrow> Inl TypeError
      | Some c \<Rightarrow> Inr (update_at c tocBody doc))"

section \<open>blogpost.js: the other functions\<close>

text \<open>\<^verbatim>\<open>preventFormEnter(event)\<close>.\<close>

definition preventFormEnter :: "keyboardEvent \<Rightarrow> keyboardEvent" where
  "preventFormEnter event = (if key event = ''Enter'' then preventDefault event else event)"

text \<open>
  The value \<^verbatim>\<open>response.json()\<close> resolves to. A number is given by its rendering
  \<^verbatim>\<open>Number::toString\<close>, which determines it up to the sign of zero; JSON has no NaN.
\<close>

datatype json =
    JNull
  | JBool bool
  | JNumber string
  | JString string
  | JArray "json list"
  | JObject "(string \<times> json) list"

text \<open>What \<^verbatim>\<open>fetch(url).then((response) => response.json())\<close> settles to: the fetch is
  rejected, the body is not JSON, or the parsed body.\<close>

datatype response = Rejected | NotJSON | Json json

text \<open>Reading a property that only an object of the response can have: \<^verbatim>\<open>null.imageUrl\<close>
  throws, a missing property is \<^verbatim>\<open>undefined\<close> (\<open>None\<close>).\<close>

fun getProperty :: "json \<Rightarrow> string \<Rightarrow> error + json option" where
  "getProperty JNull name = Inl TypeError"
| "getProperty (JObject kvs) name = Inr (map_of kvs name)"
| "getProperty (JBool b) name = Inr None"
| "getProperty (JNumber n) name = Inr None"
| "getProperty (JString s) name = Inr None"
| "getProperty (JArray xs) name = Inr None"

fun truthy :: "json \<Rightarrow> bool" where
  "truthy JNull = False"
| "truthy (JBool b) = b"
| "truthy (JNumber n) = (n \<noteq> ''0'')"
| "truthy (JString s) = (s \<noteq> [])"
| "truthy (JArray xs) = True"
| "truthy (JObject kvs) = True"

fun joinWith :: "string \<Rightarrow> string list \<Rightarrow> string" where
  "joinWith sep [] = []"
| "joinWith sep [x] = x"
| "joinWith sep (x # y # ys) = x @ sep @ joinWith sep (y # ys)"

text \<open>The string \<^verbatim>\<open>setAttribute\<close> makes of its value argument.\<close>

fun toStringJS :: "json \<Rightarrow> string" where
  "toStringJS JNull = ''null''"
| "toStringJS (JBool b) = (if b then ''true'' else ''false'')"
| "toStringJS (JNumber n) = n"
| "toStringJS (JString s) = s"
| "toStringJS (JArray xs) =
     joinWith '','' (map (\<lambda>x. case x of JNull \<Rightarrow> [] | _ \<Rightarrow> toStringJS x) xs)"
| "toStringJS (JObject kvs) = ''[object Object]''"

text \<open>
  \<^verbatim>\<open>fetchReplacementImage(imgElement)\<close>, with the network as a function from the URL to what
  the request settles to: the image element once the promise chain has settled, and the
  lines logged. A missing \<^verbatim>\<open>src\<close> is null, which \<^verbatim>\<open>fetch\<close> reads as the URL \<^verbatim>\<open>"null"\<close>.
\<close>

definition fetchReplacementImage :: "(string \<Rightarrow> response) \<Rightarrow> node \<Rightarrow> node \<times> effect list" where
  "fetchReplacementImage network imgElement =
     (let originalSrc = getAttribute ''src'' imgElement;
          url = (case originalSrc of None \<Rightarrow> ''null'' | Some u \<Rightarrow> u)
      in case network url of
           Rejected \<Rightarrow>
             (imgElement, [ConsoleError ''Error fetching replacement image: '' (Some NetworkFailure)])
         | NotJSON \<Rightarrow>
             (imgElement, [ConsoleError ''Error fetching replacement image: '' (Some BodyNotJSON)])
         | Json data \<Rightarrow>
             (case getProperty data ''imageUrl'' of
                Inl e \<Rightarrow>
                  (imgElement, [ConsoleError ''Error fetching replacement image: '' (Some PropertyOfNull)])
              | Inr None \<Rightarrow>
                  (imgElement, [ConsoleError ''Image URL not found in the response.'' None])
              | Inr (Some imageUrl) \<Rightarrow>
                  if truthy imageUrl
                  then (setAttribute ''src'' (toStringJS imageUrl) imgElement, [])
                  else (imgElement, [ConsoleError ''Image URL not found in the response.'' None])))"

text \<open>The URL the routine requests for an image element, and the new source a parsed
  response carries: the rendering of its \<^verbatim>\<open>imageUrl\<close> property when that is truthy.\<close>

definition requestedUrl :: "node \<Rightarrow> string" where
  "requestedUrl imgElement = (case getAttribute ''src'' imgElement of None \<Rightarrow> ''null'' | Some u \<Rightarrow> u)"

definition truthyImageUrl :: "json \<Rightarrow> string option" where
  "truthyImageUrl data =
     (case getProperty data ''imageUrl'' of
        Inr (Some imageUrl) \<Rightarrow> if truthy imageUrl then Some (toStringJS imageUrl) else None
      | _ \<Rightarrow> None)"

text \<open>\<^verbatim>\<open>sendReadCountRequest(postUid)\<close>: the URL requested (an undefined \<^verbatim>\<open>postUid\<close> is
  spliced in as \<^verbatim>\<open>"undefined"\<close>) and the lines logged.\<close>

definition readCountUrl :: "string option \<Rightarrow> string" where
  "readCountUrl postUid =
     ''/readcount-increment?content=post&post_uid='' @
       (case postUid of None \<Rightarrow> ''undefined'' | Some uid \<Rightarrow> uid)"

definition sendReadCountRequest :: "(string \<Rightarrow> response) \<Rightarrow> string option \<Rightarrow> effect list" where
  "sendReadCountRequest network postUid =
     (case network (readCountUrl postUid) of
        Rejected \<Rightarrow> [ConsoleError ''Error incrementing read count: '' (Some NetworkFailure)]
      | _ \<Rightarrow> [])"

text \<open>
  The statements at the top of the script after the syntax highlighter (a third-party
  library, not modelled): the container \<^verbatim>\<open>.toc\<close> is looked up and hidden. A missing
  container makes \<^verbatim>\<open>tocContainer.classList\<close> throw.
\<close>

definition blogpostScript :: "node \<Rightarrow> error + node" where
  "blogpostScript doc =
     (case document_querySelector (ClassSel ''toc'') doc of
        None \<Rightarrow> Inl TypeError
      | Some tocContainer \<Rightarrow>
          Inr (update_at tocContainer (update_props (classList_add ''d-none'')) doc))"

text \<open>
  The \<^verbatim>\<open>DOMContentLoaded\<close> listener of blogpost.js. The requests for the images are started
  and settle later; the read count request is set on a timer. Reading \<^verbatim>\<open>dataset\<close> of a
  missing \<^verbatim>\<open>#post-uid\<close>, writing \<^verbatim>\<open>value\<close> of a missing \<^verbatim>\<open>#comment\<close> and adding a listener
  to a missing \<^verbatim>\<open>#comment-form\<close> throw.
\<close>

definition blogpostLoaded :: "node \<Rightarrow> error + page" where
  "blogpostLoaded doc =
     (let images = map (\<lambda>img. Start (FetchReplacementImage img))
                     (document_querySelectorAll (ClassSel ''ajax-profile-pic'') doc)
      in case getElementById ''post-uid'' doc of
           None \<Rightarrow> Inl TypeError
         | Some holder \<Rightarrow>
             (let postUid = (case subtree_at doc holder of
                               None \<Rightarrow> None
                             | Some h \<Rightarrow> getAttribute ''data-post-uid'' h);
                  timer = SetTimeout (SendReadCountRequest postUid) 30000
              in case getElementById ''comment'' doc of
                   None \<Rightarrow> Inl TypeError
                 | Some commentTextarea \<Rightarrow>
                     (case getElementById ''comment-form'' doc of
                        None \<Rightarrow> Inl TypeError
                      | Some form \<Rightarrow>
                          (case setupTableOfContents doc of
                             Inl e \<Rightarrow> Inl e
                           | Inr doc' \<Rightarrow>
                               Inr \<lparr>document = doc',
                                    effects = images @
                                      [timer,
                                       SetValue commentTextarea [],
                                       AddEventListener (ElementAt form) ''keypress''
                                         PreventFormEnter]\<rparr>))))"

text \<open>The page as the script leaves it: the top-level statements, then the listener, both
  on the tree of the fully parsed page.\<close>

definition pageSetup :: "node \<Rightarrow> error + page" where
  "pageSetup doc = (case blogpostScript doc of Inl e \<Rightarrow> Inl e | Inr doc' \<Rightarrow> blogpostLoaded doc')"

text \<open>Dispatching a keyboard event: the listeners added for the target and the event type
  run in the order they were added. Only \<^verbatim>\<open>preventFormEnter\<close> takes the event.\<close>

fun runListener :: "target \<Rightarrow> string \<Rightarrow> keyboardEvent \<Rightarrow> effect \<Rightarrow> keyboardEvent" where
  "runListener tgt ty event (AddEventListener tgt' ty' PreventFormEnter) =
     (if tgt' = tgt \<and> ty' = ty then preventFormEnter event else event)"
| "runListener tgt ty event other = event"

definition dispatchEvent :: "effect list \<Rightarrow> target \<Rightarrow> string \<Rightarrow> keyboardEvent \<Rightarrow> keyboardEvent" where
  "dispatchEvent es tgt ty event = foldl (runListener tgt ty) event es"

section \<open>Notions the properties are stated with\<close>

text \<open>The container is hidden by the class \<^verbatim>\<open>d-none\<close>. Its top-level list counts as empty
  when \<^verbatim>\<open>querySelector("ul")\<close> finds none or the list has no element children.\<close>

definition topLevelListEmpty :: "node \<Rightarrow> bool" where
  "topLevelListEmpty tocContainer =
     (case querySelector (TypeSel ''ul'') tocContainer of
        None \<Rightarrow> True
      | Some u \<Rightarrow>
          (case subtree_at tocContainer u of
             None \<Rightarrow> True
           | Some topLevelUl \<Rightarrow> children topLevelUl = []))"

subsection \<open>Nesting depth of list items\<close>

text \<open>The number of elements matching a selector among the nodes passed on the way from
  the root of a subtree (included) to the node at a path (excluded).\<close>

fun ancestorsMatching :: "selector \<Rightarrow> node \<Rightarrow> path \<Rightarrow> nat" where
  "ancestorsMatching s n [] = 0"
| "ancestorsMatching s (Text t) (i # p) = 0"
| "ancestorsMatching s (Element pr cs) (i # p) =
     (if matches s pr then 1 else 0) + (if i < length cs then ancestorsMatching s (cs ! i) p else 0)"

text \<open>The structural nesting depth of the node at path \<open>p\<close> below the list \<open>ul\<close>: the
  number of \<^verbatim>\<open>ul\<close> elements that enclose it, \<open>ul\<close> itself counted.\<close>

definition nestingDepth :: "node \<Rightarrow> path \<Rightarrow> nat" where
  "nestingDepth ul p = ancestorsMatching (TypeSel ''ul'') ul p"

fun isTag :: "string \<Rightarrow> node \<Rightarrow> bool" where
  "isTag t (Element pr cs) = (toLowerCase (tagName pr) = t)"
| "isTag t (Text x) = False"

text \<open>A list item: an \<^verbatim>\<open>li\<close> element whose parent is a \<^verbatim>\<open>ul\<close> element.\<close>

definition isListItem :: "node \<Rightarrow> path \<Rightarrow> bool" where
  "isListItem ul p =
     (p \<noteq> [] \<and>
      (case subtree_at ul (butlast p) of Some parent \<Rightarrow> isTag ''ul'' parent | None \<Rightarrow> False) \<and>
      (case subtree_at ul p of Some item \<Rightarrow> isTag ''li'' item | None \<Rightarrow> False))"

fun forallNodes :: "(node \<Rightarrow> bool) \<Rightarrow> node \<Rightarrow> bool" where
  "forallNodes P (Text t) = True"
| "forallNodes P (Element pr cs) = (P (Element pr cs) \<and> (\<forall>c \<in> set cs. forallNodes P c))"

text \<open>The shape of a generated table of contents, as a condition on each element: the
  element children of a \<^verbatim>\<open>ul\<close> are \<^verbatim>\<open>li\<close> elements, and the lists inside an \<^verbatim>\<open>li\<close> all
  lie within the first of them (an item holds at most one list of its own).\<close>

fun oneListPerItem :: "node \<Rightarrow> bool" where
  "oneListPerItem (Text t) = True"
| "oneListPerItem (Element pr cs) =
     (if toLowerCase (tagName pr) = ''ul'' then (\<forall>c \<in> set cs. isElement c \<longrightarrow> isTag ''li'' c)
      else if toLowerCase (tagName pr) = ''li'' then
        (case selectAllList (TypeSel ''ul'') 0 cs of
           [] \<Rightarrow> True
         | q # rest \<Rightarrow> (\<forall>r \<in> set rest. prefix q r))
      else True)"


subsection \<open>Elements of the time classes\<close>



section \<open>The site-wide script: dates, counts, layout\<close>
















section \<open>A pass over selected elements as a tree recursion\<close>




section \<open>Example documents\<close>

definition htmlElement :: "string \<Rightarrow> string list \<Rightarrow> (string \<times> string) list \<Rightarrow> node list \<Rightarrow> node" where
  "htmlElement tag classes attrs cs =
     Element \<lparr>tagName = tag, classList = classes, attributes = attrs, style = [],
              offsetHeight = 0\<rparr> cs"

text \<open>A table of contents as the markdown renderer emits it: each item holds a link and at
  most one list.\<close>

definition tocSingleLists :: node where
  "tocSingleLists =
     htmlElement ''UL'' [] []
       [htmlElement ''LI'' [] []
          [htmlElement ''A'' [] [] [Text ''Intro''],
           htmlElement ''UL'' [] []
             [htmlElement ''LI'' [] []
                [htmlElement ''A'' [] [] [Text ''Scope''],
                 htmlElement ''UL'' [] []
                   [htmlElement ''LI'' [] [] [htmlElement ''A'' [] [] [Text ''Terms'']]]]]],
        htmlElement ''LI'' [] [] [htmlElement ''A'' [] [] [Text ''Results'']]]"

text \<open>A page whose container \<^verbatim>\<open>.toc\<close>, hidden, holds the given list.\<close>

definition tocPage :: "node \<Rightarrow> node" where
  "tocPage ul =
     htmlElement ''BODY'' [] []
       [htmlElement ''H1'' [] [] [Text ''Post''],
        htmlElement ''DIV'' [''toc'', ''d-none''] [] [ul]]"

text \<open>A blog post page: the container of the table of contents, the holder of the post
  id, and the comment form with its text area.\<close>

definition blogpostPage :: node where
  "blogpostPage =
     htmlElement ''BODY'' [] []
       [htmlElement ''DIV'' [''toc''] [] [tocSingleLists],
        htmlElement ''SPAN'' [] [(''id'', ''post-uid''), (''data-post-uid'', ''42'')] [],
        htmlElement ''FORM'' [] [(''id'', ''comment-form'')]
          [htmlElement ''TEXTAREA'' [] [(''id'', ''comment'')] []]]"



text \<open>A profile picture awaiting its replacement, a network that is down, and a server
  that knows the picture.\<close>

definition avatar :: node where
  "avatar = htmlElement ''IMG'' [''ajax-profile-pic''] [(''src'', ''/avatar/u1''), (''alt'', ''me'')] []"

definition offline :: "string \<Rightarrow> response" where
  "offline url = Rejected"

definition avatarServer :: "string \<Rightarrow> response" where
  "avatarServer url =
     (if url = ''/avatar/u1'' then Json (JObject [(''imageUrl'', JString ''/img/u1.png'')])
      else Json (JObject [(''error'', JString ''unknown user'')]))"



text \<open>A list whose first item holds two lists side by side.\<close>

definition tocTwoLists :: node where
  "tocTwoLists =
     htmlElement ''UL'' [] []
       [htmlElement ''LI'' [] []
          [htmlElement ''A'' [] [] [Text ''Intro''],
           htmlElement ''UL'' [] [] [htmlElement ''LI'' [] [] [Text ''Scope'']],
           htmlElement ''UL'' [] [] [htmlElement ''LI'' [] [] [Text ''Terms'']]]]"

section \<open>Properties of the DOM operations\<close>

lemma subtree_at_append:
  "subtree_at n (p @ q) = (case subtree_at n p of None \<Rightarrow> None | Some m \<Rightarrow> subtree_at m q)"
  by (induction n p rule: subtree_at.induct) auto

lemma subtree_at_update_at:
  "subtree_at n q = Some m \<Longrightarrow> subtree_at (update_at q f n) (q @ r) = subtree_at (f m) r"
  by (induction n q rule: subtree_at.induct) (auto split: if_splits)

lemma ancestorsMatching_append:
  "ancestorsMatching s n (p @ q) =
     ancestorsMatching s n p + (case subtree_at n p of None \<Rightarrow> 0 | Some m \<Rightarrow> ancestorsMatching s m q)"
  by (induction s n p rule: ancestorsMatching.induct) auto

lemma selectAll_iff:
  "p \<in> set (selectAll s n) \<longleftrightarrow> (\<exists>pr cs. subtree_at n p = Some (Element pr cs) \<and> matches s pr)"
  "p \<in> set (selectAllList s k ns) \<longleftrightarrow>
     (\<exists>i p' pr cs. p = (k + i) # p' \<and> i < length ns \<and> subtree_at (ns ! i) p' = Some (Element pr cs) \<and> matches s pr)"
proof (induction s n and s k ns arbitrary: p and p rule: selectAll_selectAllList.induct)
  case (1 s t)
  then show ?case by (cases p) auto
next
  case (2 s pr cs)
  show ?case
  proof (cases p)
    case Nil
    then show ?thesis using 2 by auto
  next
    case (Cons i p')
    then show ?thesis using 2[of p] by (auto split: if_splits)
  qed
next
  case (3 s i)
  then show ?case by simp
next
  case (4 s k c cs)
  show ?case
  proof
    assume "p \<in> set (selectAllList s k (c # cs))"
    then consider p' where "p = k # p'" "p' \<in> set (selectAll s c)" | "p \<in> set (selectAllList s (Suc k) cs)"
      by auto
    then show "\<exists>i p' pr cs'. p = (k + i) # p' \<and> i < length (c # cs) \<and> subtree_at ((c # cs) ! i) p' = Some (Element pr cs') \<and> matches s pr"
    proof cases
      case 1
      then show ?thesis using 4(1)[of p'] by (intro exI[of _ 0]) auto
    next
      case 2
      then obtain i p' pr cs' where "p = (Suc k + i) # p'" "i < length cs" "subtree_at (cs ! i) p' = Some (Element pr cs')" "matches s pr"
        using 4(2)[of p] by blast
      then show ?thesis by (intro exI[of _ "Suc i"]) auto
    qed
  next
    assume "\<exists>i p' pr cs'. p = (k + i) # p' \<and> i < length (c # cs) \<and> subtree_at ((c # cs) ! i) p' = Some (Element pr cs') \<and> matches s pr"
    then obtain i p' pr cs' where *: "p = (k + i) # p'" "i < length (c # cs)" "subtree_at ((c # cs) ! i) p' = Some (Element pr cs')" "matches s pr"
      by blast
    show "p \<in> set (selectAllList s k (c # cs))"
    proof (cases i)
      case 0
      then show ?thesis using * 4(1)[of p'] by auto
    next
      case (Suc j)
      then have "p \<in> set (selectAllList s (Suc k) cs)"
        using * 4(2)[of p] by auto
      then show ?thesis by simp
    qed
  qed
qed

lemma first_match_no_ancestor:
  "selectAll s n = q # rest \<Longrightarrow> ancestorsMatching s n q = 0"
  "selectAllList s k ns = q # rest \<Longrightarrow>
     \<exists>i q'. q = (k + i) # q' \<and> i < length ns \<and> ancestorsMatching s (ns ! i) q' = 0"
proof (induction s n and s k ns arbitrary: q rest and q rest rule: selectAll_selectAllList.induct)
  case (2 s pr cs)
  show ?case
  proof (cases "matches s pr")
    case True
    then show ?thesis using 2 by auto
  next
    case False
    then have "selectAllList s 0 cs = q # rest" using 2(2) by simp
    from 2(1)[OF this] False show ?thesis by auto
  qed
next
  case (4 s k c cs)
  show ?case
  proof (cases "selectAll s c")
    case Nil
    then have "selectAllList s (Suc k) cs = q # rest" using 4(3) by simp
    from 4(2)[OF this] obtain i q' where "q = (Suc k + i) # q'" "i < length cs" "ancestorsMatching s (cs ! i) q' = 0"
      by blast
    then show ?thesis by (intro exI[of _ "Suc i"]) auto
  next
    case (Cons q' rest')
    then have "q = k # q'" using 4(3) by simp
    moreover have "ancestorsMatching s c q' = 0" using 4(1)[OF Cons] .
    ultimately show ?thesis by (intro exI[of _ 0]) auto
  qed
qed auto

lemma forallNodes_subtree:
  "forallNodes P n \<Longrightarrow> subtree_at n p = Some m \<Longrightarrow> forallNodes P m"
  by (induction n p rule: subtree_at.induct) (auto split: if_splits)


lemma selectAllList_nonempty: "p \<in> set (selectAllList s k ns) \<Longrightarrow> p \<noteq> []"
  by (auto simp: selectAll_iff(2))

lemma subtree_at_root_props:
  "p \<noteq> [] \<Longrightarrow> subtree_at (Element pr cs) p = subtree_at (Element pr' cs) p"
  by (cases p) auto

lemma addTocLevelClass_item:
  assumes shape: "forallNodes oneListPerItem ul"
    and ul: "isTag ''ul'' ul"
    and item: "isListItem ul p"
  shows "\<exists>ipr ics. subtree_at (addTocLevelClass ul level) p = Some (Element ipr ics) \<and>
           ''toclevel-'' @ string_of_nat (level + nestingDepth ul p - 1) \<in> set (classList ipr)"
  using assms
proof (induction p arbitrary: ul level rule: length_induct)
  case (1 p)
  note IH = "1.IH"[rule_format]
  from "1.prems"(2) obtain pr items where U: "ul = Element pr items" and Utag: "toLowerCase (tagName pr) = ''ul''"
    by (cases ul) auto
  from "1.prems"(3) obtain i p' where p: "p = i # p'"
    by (cases p) (auto simp: isListItem_def)
  from "1.prems"(3) obtain e where e: "subtree_at ul p = Some e" and eli: "isTag ''li'' e"
    by (auto simp: isListItem_def split: option.splits)
  from "1.prems"(3) obtain par where par: "subtree_at ul (butlast p) = Some par" and parul: "isTag ''ul'' par"
    by (auto simp: isListItem_def split: option.splits)
  from e have i: "i < length items" and ce: "subtree_at (items ! i) p' = Some e"
    by (auto simp: U p split: if_splits)
  define c where "c = items ! i"
  have cmem: "c \<in> set items" using i by (simp add: c_def)
  have Umatch: "matches (TypeSel ''ul'') pr"
    using Utag by (simp add: toLowerCase_def lowerChar_def)
  have cli: "isTag ''li'' c"
  proof (cases p')
    case Nil
    then show ?thesis using ce eli by (simp add: c_def)
  next
    case (Cons j p'')
    then have "isElement c" using ce by (cases c) (auto simp: c_def)
    then show ?thesis using "1.prems"(1) cmem Utag by (auto simp: U)
  qed
  then obtain ipr ics where c: "c = Element ipr ics" and ctag: "toLowerCase (tagName ipr) = ''li''"
    by (cases c) auto
  define lvl where "lvl = ''toclevel-'' @ string_of_nat level"
  define item' where "item' = Element (classList_add lvl ipr) ics"
  define g where "g = (case querySelector (TypeSel ''ul'') item' of
                   None \<Rightarrow> item'
                 | Some q \<Rightarrow>
                     (case subtree_at item' q of
                        None \<Rightarrow> item'
                      | Some nestedUl \<Rightarrow>
                          update_at q (\<lambda>_. addTocLevelClass nestedUl (level + 1)) item'))"
  define F where "F = (\<lambda>item.
       case item of
         Text t \<Rightarrow> Text t
       | Element ipr ics \<Rightarrow>
           if toLowerCase (tagName ipr) = ''li'' then
             (let item' = Element (classList_add (''toclevel-'' @ string_of_nat level) ipr) ics
              in case querySelector (TypeSel ''ul'') item' of
                   None \<Rightarrow> item'
                 | Some q \<Rightarrow>
                     (case subtree_at item' q of
                        None \<Rightarrow> item'
                      | Some nestedUl \<Rightarrow>
                          update_at q (\<lambda>_. addTocLevelClass nestedUl (level + 1)) item'))
           else item)"
  have Fc: "F c = g"
    unfolding F_def g_def item'_def lvl_def c Let_def by (simp only: node.case ctag refl if_True)
  have "addTocLevelClass ul level = Element pr (map F items)"
    unfolding U F_def by simp
  then have res: "subtree_at (addTocLevelClass ul level) p = subtree_at g p'"
    using i by (simp add: p Fc[symmetric] c_def)
  have qs: "querySelector (TypeSel ''ul'') item' = (case selectAllList (TypeSel ''ul'') 0 ics of [] \<Rightarrow> None | q # rest \<Rightarrow> Some q)"
    by (simp add: querySelector_def item'_def)
  show ?case
  proof (cases p')
    case Nil
    have "\<exists>ics'. g = Element (classList_add lvl ipr) ics'"
    proof (cases "selectAllList (TypeSel ''ul'') 0 ics")
      case Nil
      then show ?thesis by (simp add: g_def qs) (simp add: item'_def)
    next
      case (Cons q rest)
      then have "q \<noteq> []" using selectAllList_nonempty[of q "TypeSel ''ul''" 0 ics] by simp
      then obtain j q' where "q = j # q'" by (cases q) auto
      then show ?thesis using Cons by (simp add: g_def qs) (auto simp: item'_def split: option.splits)
    qed
    then obtain ics' where g: "g = Element (classList_add lvl ipr) ics'" by blast
    have "nestingDepth ul p = 1"
      using Umatch i by (simp add: nestingDepth_def U p Nil)
    moreover have "lvl \<in> set (classList (classList_add lvl ipr))"
      by (simp add: classList_add_def)
    ultimately show ?thesis
      by (simp add: res g Nil lvl_def)
  next
    case (Cons j r)
    define w where "w = butlast p'"
    have p'w: "p' = w @ [last p']" using Cons by (simp add: w_def)
    have bl: "butlast p = i # w" using Cons by (simp add: p w_def)
    from par have cw: "subtree_at c w = Some par"
      using i by (simp add: bl U c_def)
    have cnotul: "\<not> matches (TypeSel ''ul'') ipr"
      using ctag by (simp add: toLowerCase_def lowerChar_def)
    from parul obtain ppr pcs where parE: "par = Element ppr pcs" and "matches (TypeSel ''ul'') ppr"
      by (cases par) (auto simp: toLowerCase_def lowerChar_def)
    then have win: "w \<in> set (selectAll (TypeSel ''ul'') c)"
      using cw by (auto simp: selectAll_iff(1))
    then have winl: "w \<in> set (selectAllList (TypeSel ''ul'') 0 ics)"
      using cnotul by (simp add: c)
    then obtain q rest where sel: "selectAllList (TypeSel ''ul'') 0 ics = q # rest"
      by (cases "selectAllList (TypeSel ''ul'') 0 ics") auto
    have cshape: "forallNodes oneListPerItem c"
      using "1.prems"(1) cmem by (auto simp: U)
    then have "\<forall>r \<in> set rest. prefix q r"
      using ctag sel by (simp add: c toLowerCase_def lowerChar_def)
    then have "prefix q w"
      using winl sel by auto
    then obtain w' where w: "w = q @ w'"
      by (auto simp: prefix_def)
    define p'' where "p'' = w' @ [last p']"
    have p'q: "p' = q @ p''" using p'w w by (simp add: p''_def)
    have "q \<in> set (selectAll (TypeSel ''ul'') c)"
      using sel by (simp add: c)
    then obtain vpr vcs where V: "subtree_at c q = Some (Element vpr vcs)" and Vul: "matches (TypeSel ''ul'') vpr"
      by (auto simp: selectAll_iff(1))
    define V where "V = Element vpr vcs"
    have qne: "q \<noteq> []" using sel selectAllList_nonempty[of q "TypeSel ''ul''" 0 ics] by simp
    have V': "subtree_at item' q = Some V"
      using V subtree_at_root_props[OF qne, of ipr ics] by (simp add: item'_def c V_def)
    have g: "g = update_at q (\<lambda>_. addTocLevelClass V (level + 1)) item'"
      by (simp add: g_def qs sel V')
    have res2: "subtree_at g p' = subtree_at (addTocLevelClass V (level + 1)) p''"
      unfolding g p'q using subtree_at_update_at[OF V'] by simp
    have Vshape: "forallNodes oneListPerItem V"
      using forallNodes_subtree[OF cshape V] by (simp add: V_def)
    have Vtag: "isTag ''ul'' V"
      using Vul by (simp add: V_def toLowerCase_def lowerChar_def)
    have Ve: "subtree_at V p'' = Some e"
      using ce V by (simp add: c_def[symmetric] p'q subtree_at_append V_def)
    have Vpar: "subtree_at V (butlast p'') = Some par"
      using cw V by (simp add: w subtree_at_append p''_def V_def)
    have Vitem: "isListItem V p''"
      using Ve Vpar eli parul by (simp add: isListItem_def p''_def)
    have len: "length p'' < length p"
      using qne by (simp add: p p'q)
    from IH[OF len Vshape Vtag Vitem, of "level + 1"]
    obtain ipr' ics' where r: "subtree_at (addTocLevelClass V (level + 1)) p'' = Some (Element ipr' ics')"
      and cl: "''toclevel-'' @ string_of_nat (level + 1 + nestingDepth V p'' - 1) \<in> set (classList ipr')"
      by blast
    have "ancestorsMatching (TypeSel ''ul'') c q = 0"
    proof -
      from first_match_no_ancestor(2)[OF sel] obtain k q' where "q = k # q'" "k < length ics"
        "ancestorsMatching (TypeSel ''ul'') (ics ! k) q' = 0" by auto
      then show ?thesis using cnotul by (simp add: c)
    qed
    then have "nestingDepth ul p = 1 + nestingDepth V p''"
      using Umatch i V by (simp add: nestingDepth_def U p p'q c_def[symmetric] ancestorsMatching_append V_def)
    then have "level + nestingDepth ul p - 1 = level + 1 + nestingDepth V p'' - 1"
      by simp
    then show ?thesis
      using r cl by (simp add: res res2)
  qed
qed

lemma first_match_stable:
  "\<forall>pr cs. matches s pr \<longrightarrow> (\<exists>pr' cs'. f (Element pr cs) = Element pr' cs' \<and> matches s pr') \<Longrightarrow>
     selectAll s n = c # rest \<Longrightarrow> \<exists>rest'. selectAll s (update_at c f n) = c # rest'"
  "\<forall>pr cs. matches s pr \<longrightarrow> (\<exists>pr' cs'. f (Element pr cs) = Element pr' cs' \<and> matches s pr') \<Longrightarrow>
     selectAllList s k ns = c # rest \<Longrightarrow>
       \<exists>i c' rest'. c = (k + i) # c' \<and> i < length ns \<and>
         selectAllList s k (ns[i := update_at c' f (ns ! i)]) = c # rest'"
proof (induction s n and s k ns arbitrary: c rest and c rest rule: selectAll_selectAllList.induct)
  case (2 s pr cs)
  note f = 2(2)
  show ?case
  proof (cases "matches s pr")
    case True
    then have "c = []" using 2(3) by simp
    moreover from f True obtain pr' cs' where "f (Element pr cs) = Element pr' cs'" "matches s pr'"
      by blast
    ultimately show ?thesis by simp
  next
    case False
    then have "selectAllList s 0 cs = c # rest" using 2(3) by simp
    from 2(1)[OF f this] obtain i c' rest' where "c = i # c'" "i < length cs"
      "selectAllList s 0 (cs[i := update_at c' f (cs ! i)]) = c # rest'"
      by auto
    then show ?thesis using False by simp
  qed
next
  case (4 s k n ns)
  note f = 4(3)
  show ?case
  proof (cases "selectAll s n")
    case Nil
    then have "selectAllList s (Suc k) ns = c # rest" using 4(4) by simp
    from 4(2)[OF f this] obtain i c' rest' where "c = (Suc k + i) # c'" "i < length ns"
      "selectAllList s (Suc k) (ns[i := update_at c' f (ns ! i)]) = c # rest'"
      by blast
    then show ?thesis using Nil by (intro exI[of _ "Suc i"]) auto
  next
    case (Cons c' r)
    then have c: "c = k # c'" using 4(4) by simp
    from 4(1)[OF f Cons] obtain rest' where "selectAll s (update_at c' f n) = c' # rest'"
      by blast
    then show ?thesis using c by (intro exI[of _ 0]) auto
  qed
qed auto

lemma document_querySelector_stable:
  assumes "document_querySelector s doc = Some c"
    and "\<And>pr. matches s pr \<Longrightarrow> matches s (g pr)"
  shows "document_querySelector s (update_at c (update_props g) doc) = Some c"
proof -
  from assms(1) obtain rest where "selectAll s doc = c # rest"
    by (auto simp: document_querySelector_def split: list.splits)
  moreover have "\<forall>pr cs. matches s pr \<longrightarrow>
      (\<exists>pr' cs'. update_props g (Element pr cs) = Element pr' cs' \<and> matches s pr')"
    using assms(2) by simp
  ultimately obtain rest' where "selectAll s (update_at c (update_props g) doc) = c # rest'"
    using first_match_stable(1)[of s "update_props g" doc c rest] by blast
  then show ?thesis by (simp add: document_querySelector_def)
qed

lemma document_querySelector_subtree:
  assumes "document_querySelector s doc = Some c"
  shows "\<exists>pr cs. subtree_at doc c = Some (Element pr cs) \<and> matches s pr"
proof -
  from assms have "c \<in> set (selectAll s doc)"
    by (auto simp: document_querySelector_def split: list.splits)
  then show ?thesis by (simp add: selectAll_iff(1))
qed

lemma subtree_at_update_at_same:
  "subtree_at n q = Some m \<Longrightarrow> subtree_at (update_at q f n) q = Some (f m)"
  using subtree_at_update_at[of n q m f "[]"] by simp

lemma tocHeading_eq: "tocHeading = tocHeadingNode"
  by code_simp

lemma update_at_nonroot:
  "\<exists>cs'. update_at (Suc i # u) f (Element pr (x # cs)) = Element pr (x # cs')"
  by (cases "i < length cs") auto

lemma tocBody_hidden:
  assumes "tocContainer = Element pr cs"
  shows "(topLevelListEmpty tocContainer \<longrightarrow> tocBody (update_props (classList_add ''d-none'') tocContainer) = update_props (classList_add ''d-none'') tocContainer)
   \<and> (\<not> topLevelListEmpty tocContainer \<longrightarrow> (\<exists>pr' rest. tocBody (update_props (classList_add ''d-none'') tocContainer) = Element pr' (tocHeading # rest) \<and> ''d-none'' \<notin> set (classList pr')))"
proof -
  let ?c = "Element (classList_add ''d-none'' pr) cs"
  have qs: "querySelector (TypeSel ''ul'') ?c = querySelector (TypeSel ''ul'') tocContainer"
    by (simp add: querySelector_def assms)
  show ?thesis
  proof (cases "querySelector (TypeSel ''ul'') tocContainer")
    case None
    then show ?thesis using qs by (simp add: topLevelListEmpty_def tocBody_def assms)
  next
    case (Some u)
    then have "u \<in> set (selectAllList (TypeSel ''ul'') 0 cs)"
      by (auto simp: querySelector_def assms split: list.splits)
    then have "u \<noteq> []"
      by (rule selectAllList_nonempty)
    then obtain i u' where u: "u = i # u'"
      by (cases u) auto
    have sub: "subtree_at ?c u = subtree_at tocContainer u"
      by (simp add: u assms)
    show ?thesis
    proof (cases "subtree_at tocContainer u")
      case None
      then show ?thesis using Some qs sub by (simp add: topLevelListEmpty_def tocBody_def assms u)
    next
      case (Some topLevelUl)
      note ul = this
      show ?thesis
      proof (cases "children topLevelUl = []")
        case True
        then show ?thesis using \<open>querySelector (TypeSel ''ul'') tocContainer = Some u\<close> qs sub ul
          by (simp add: topLevelListEmpty_def tocBody_def assms u)
      next
        case False
        obtain cs' where "update_at (Suc i # u') (\<lambda>ul. addTocLevelClass ul 1)
           (Element (classList_remove ''d-none'' (classList_add ''d-none'' pr)) (tocHeading # cs))
           = Element (classList_remove ''d-none'' (classList_add ''d-none'' pr)) (tocHeading # cs')"
          using update_at_nonroot by blast
        moreover have "''d-none'' \<notin> set (classList (classList_remove ''d-none'' (classList_add ''d-none'' pr)))"
          by (simp add: classList_remove_def)
        ultimately show ?thesis using False \<open>querySelector (TypeSel ''ul'') tocContainer = Some u\<close> qs sub ul
          by (simp add: topLevelListEmpty_def tocBody_def assms u)
      qed
    qed
  qed
qed


lemma map_of_assign: "map_of (assign name v kvs) name = Some v"
  by (induction kvs) auto

lemma getAttribute_setAttribute:
  "isElement n \<Longrightarrow> getAttribute name (setAttribute name v n) = Some v"
  by (cases n) (simp_all add: setAttribute_def map_of_assign)

lemma runListener_started:
  "foldl (runListener tgt ty) event (map (\<lambda>img. Start (FetchReplacementImage img)) imgs) = event"
  by (induction imgs) auto


















lemma textContent_set_textContent:
  "textContent (set_textContent t (Element pr cs)) = t"
  by simp










section \<open>The table of contents: depth classes\<close>

text \<open>
  C1 (as amended). Let the top-level list of the container \<^verbatim>\<open>.toc\<close> be a list in which the
  element children of every list are list items and every item holds at most one list of
  its own (all lists inside an item lie within the first one). Then setting up the table
  of contents gives every list item below that list the class \<^verbatim>\<open>toclevel-d\<close>, where \<open>d\<close> is the
  structural nesting depth of the item: 1 for the items of the top-level list, 2 for the
  items of the lists inside those, and so on without bound. The item is found in the
  document after setup one child further to the right in the container, behind the new
  heading, and it is \<^verbatim>\<open>addTocLevelClass(topLevelUl, 1)\<close> that tags it.
\<close>

theorem setupTableOfContents_tags_depth:
  assumes toc: "document_querySelector (ClassSel ''toc'') doc = Some c"
    and container: "subtree_at doc c = Some tocContainer"
    and first: "querySelector (TypeSel ''ul'') tocContainer = Some (i # u)"
    and list: "subtree_at tocContainer (i # u) = Some topLevelUl"
    and shape: "forallNodes oneListPerItem topLevelUl"
    and item: "isListItem topLevelUl p"
  shows "\<exists>doc' ipr ics.
           setupTableOfContents doc = Inr doc' \<and>
           subtree_at doc' (c @ Suc i # u @ p) = Some (Element ipr ics) \<and>
           subtree_at (addTocLevelClass topLevelUl 1) p = Some (Element ipr ics) \<and>
           ''toclevel-'' @ string_of_nat (nestingDepth topLevelUl p) \<in> set (classList ipr)"
proof -
  from first have "i # u \<in> set (selectAllList (TypeSel ''ul'') 0 (childNodes tocContainer))"
    by (auto simp: querySelector_def split: list.splits)
  then obtain j q pr cs where "i # u = (0 + j) # q" and j: "j < length (childNodes tocContainer)"
    and at: "subtree_at (childNodes tocContainer ! j) q = Some (Element pr cs)"
    and m: "matches (TypeSel ''ul'') pr"
    unfolding selectAll_iff(2) by blast
  then have ij: "j = i" "q = u" by simp_all
  obtain cpr ccs where tc: "tocContainer = Element cpr ccs"
    using list by (cases tocContainer) auto
  have ul: "topLevelUl = Element pr cs"
    using list at j by (simp add: tc ij)
  have tag: "isTag ''ul'' topLevelUl"
    using m by (simp add: ul toLowerCase_def lowerChar_def)
  from addTocLevelClass_item[OF shape tag item, of 1]
  obtain ipr ics where tagged: "subtree_at (addTocLevelClass topLevelUl 1) p = Some (Element ipr ics)"
    and cls: "''toclevel-'' @ string_of_nat (nestingDepth topLevelUl p) \<in> set (classList ipr)"
    by auto
  from item obtain k p' where p: "p = k # p'"
    by (cases p) (auto simp: isListItem_def)
  from item obtain e where e: "subtree_at topLevelUl p = Some e"
    by (auto simp: isListItem_def split: option.splits)
  then have k: "k < length cs" and ek: "subtree_at (cs ! k) p' = Some e"
    by (auto simp: ul p split: if_splits)
  have "isElement (cs ! k)"
  proof (cases p')
    case Nil
    then show ?thesis using item e ek by (cases "cs ! k") (auto simp: isListItem_def)
  next
    case (Cons a b)
    then show ?thesis using ek by (cases "cs ! k") auto
  qed
  then have "cs ! k \<in> set (children topLevelUl)"
    using k by (simp add: children_def ul)
  then have nonempty: "length (children topLevelUl) > 0"
    by (cases "children topLevelUl") auto
  let ?c' = "insertBeforeFirstChild tocHeading (update_props (classList_remove ''d-none'') tocContainer)"
  have body: "tocBody tocContainer = update_at (Suc i # u) (\<lambda>ul. addTocLevelClass ul 1) ?c'"
    using first list nonempty by (simp add: tocBody_def)
  have "subtree_at ?c' (Suc i # u) = Some topLevelUl"
    using list by (auto simp: tc split: if_splits)
  then have "subtree_at (tocBody tocContainer) ((Suc i # u) @ p) = subtree_at (addTocLevelClass topLevelUl 1) p"
    unfolding body by (rule subtree_at_update_at)
  moreover have "subtree_at (update_at c tocBody doc) (c @ (Suc i # u) @ p) =
      subtree_at (tocBody tocContainer) ((Suc i # u) @ p)"
    using container by (rule subtree_at_update_at)
  moreover have "setupTableOfContents doc = Inr (update_at c tocBody doc)"
    using toc by (simp add: setupTableOfContents_def)
  ultimately show ?thesis
    using tagged cls by simp
qed

text \<open>The theorem at the item \<^verbatim>\<open>Terms\<close> of the example, three lists deep.\<close>

theorem setupTableOfContents_tags_depth_witness:
  "document_querySelector (ClassSel ''toc'') (tocPage tocSingleLists) = Some [1] \<and>
   subtree_at (tocPage tocSingleLists) [1] =
     Some (htmlElement ''DIV'' [''toc'', ''d-none''] [] [tocSingleLists]) \<and>
   querySelector (TypeSel ''ul'') (htmlElement ''DIV'' [''toc'', ''d-none''] [] [tocSingleLists]) = Some [0] \<and>
   subtree_at (htmlElement ''DIV'' [''toc'', ''d-none''] [] [tocSingleLists]) [0] = Some tocSingleLists \<and>
   forallNodes oneListPerItem tocSingleLists \<and>
   isListItem tocSingleLists [0, 1, 0, 1, 0] \<and>
   nestingDepth tocSingleLists [0, 1, 0, 1, 0] = 3 \<and>
   (\<exists>doc' ipr ics.
      setupTableOfContents (tocPage tocSingleLists) = Inr doc' \<and>
      subtree_at doc' ([1] @ Suc 0 # [] @ [0, 1, 0, 1, 0]) = Some (Element ipr ics) \<and>
      subtree_at (addTocLevelClass tocSingleLists 1) [0, 1, 0, 1, 0] = Some (Element ipr ics) \<and>
      ''toclevel-'' @ string_of_nat (nestingDepth tocSingleLists [0, 1, 0, 1, 0]) \<in> set (classList ipr))"
proof -
  let ?container = "htmlElement ''DIV'' [''toc'', ''d-none''] [] [tocSingleLists]"
  have toc: "document_querySelector (ClassSel ''toc'') (tocPage tocSingleLists) = Some [1]"
    by code_simp
  have container: "subtree_at (tocPage tocSingleLists) [1] = Some ?container"
    by code_simp
  have first: "querySelector (TypeSel ''ul'') ?container = Some [0]"
    by code_simp
  have list: "subtree_at ?container [0] = Some tocSingleLists"
    by code_simp
  have shape: "forallNodes oneListPerItem tocSingleLists"
    by code_simp
  have item: "isListItem tocSingleLists [0, 1, 0, 1, 0]"
    by code_simp
  have depth: "nestingDepth tocSingleLists [0, 1, 0, 1, 0] = 3"
    by code_simp
  from setupTableOfContents_tags_depth[OF toc container first list shape item]
    toc container first list shape item depth
  show ?thesis by blast
qed

text \<open>
  The claim as stated fails where an item holds two lists side by side: the item
  \<^verbatim>\<open>Terms\<close> of the second list is a list item of depth 2, and setup leaves it without
  any class, because \<^verbatim>\<open>item.querySelector("ul")\<close> yields the first list only.
\<close>

theorem setupTableOfContents_second_list_counterexample:
  "isListItem tocTwoLists [0, 2, 0] \<and>
   nestingDepth tocTwoLists [0, 2, 0] = 2 \<and>
   subtree_at (addTocLevelClass tocTwoLists 1) [0, 2, 0] =
     Some (htmlElement ''LI'' [] [] [Text ''Terms'']) \<and>
   setupTableOfContents (tocPage tocTwoLists) =
     Inr (htmlElement ''BODY'' [] []
       [htmlElement ''H1'' [] [] [Text ''Post''],
        htmlElement ''DIV'' [''toc''] []
          [htmlElement ''H3'' [] [] [Text ''Table of Contents''],
           htmlElement ''UL'' [] []
             [htmlElement ''LI'' [''toclevel-1''] []
                [htmlElement ''A'' [] [] [Text ''Intro''],
                 htmlElement ''UL'' [] [] [htmlElement ''LI'' [''toclevel-2''] [] [Text ''Scope'']],
                 htmlElement ''UL'' [] [] [htmlElement ''LI'' [] [] [Text ''Terms'']]]]]])"
  by code_simp

section \<open>The table of contents: visibility and heading\<close>

text \<open>
  C2. After page setup (the top-level statements of blogpost.js, then its
  \<^verbatim>\<open>DOMContentLoaded\<close> listener, both run to the end), the container \<^verbatim>\<open>.toc\<close> is hidden, that
  is, carries the class \<^verbatim>\<open>d-none\<close>, if and only if its top-level list is absent or has no
  children. When the list has a child, the container is not hidden and its first child
  is an \<^verbatim>\<open>h3\<close> element with the text \<^verbatim>\<open>Table of Contents\<close>.
\<close>

theorem pageSetup_toc_visibility:
  assumes "pageSetup doc = Inr pg"
  shows "\<exists>c tocContainer tocContainer'.
           document_querySelector (ClassSel ''toc'') doc = Some c \<and>
           subtree_at doc c = Some tocContainer \<and>
           subtree_at (document pg) c = Some tocContainer' \<and>
           (hasClass ''d-none'' tocContainer' \<longleftrightarrow> topLevelListEmpty tocContainer) \<and>
           (\<not> topLevelListEmpty tocContainer \<longrightarrow>
              (\<exists>rest. childNodes tocContainer' = tocHeadingNode # rest))"
proof -
  let ?hide = "update_props (classList_add ''d-none'')"
  from assms obtain d1 where script: "blogpostScript doc = Inr d1" and loaded: "blogpostLoaded d1 = Inr pg"
    by (auto simp: pageSetup_def split: sum.splits)
  from script obtain c where c: "document_querySelector (ClassSel ''toc'') doc = Some c"
    and d1: "d1 = update_at c ?hide doc"
    by (auto simp: blogpostScript_def split: option.splits)
  from loaded obtain doc' where toc: "setupTableOfContents d1 = Inr doc'" and pg: "document pg = doc'"
    by (auto simp: blogpostLoaded_def Let_def split: option.splits sum.splits)
  have c1: "document_querySelector (ClassSel ''toc'') d1 = Some c"
    unfolding d1 by (rule document_querySelector_stable[OF c]) (simp add: classList_add_def)
  from toc c1 have doc': "doc' = update_at c tocBody d1"
    by (simp add: setupTableOfContents_def)
  from document_querySelector_subtree[OF c] obtain pr cs where sub: "subtree_at doc c = Some (Element pr cs)"
    by blast
  define tocContainer where "tocContainer = Element pr cs"
  have sub1: "subtree_at d1 c = Some (?hide tocContainer)"
    unfolding d1 using subtree_at_update_at_same[OF sub] by (simp add: tocContainer_def)
  have sub': "subtree_at doc' c = Some (tocBody (?hide tocContainer))"
    unfolding doc' by (rule subtree_at_update_at_same[OF sub1])
  have "(hasClass ''d-none'' (tocBody (?hide tocContainer)) \<longleftrightarrow> topLevelListEmpty tocContainer) \<and>
        (\<not> topLevelListEmpty tocContainer \<longrightarrow>
           (\<exists>rest. childNodes (tocBody (?hide tocContainer)) = tocHeadingNode # rest))"
  proof (cases "topLevelListEmpty tocContainer")
    case True
    with tocBody_hidden[OF tocContainer_def] have "tocBody (?hide tocContainer) = ?hide tocContainer"
      by blast
    then show ?thesis using True by (simp add: tocContainer_def classList_add_def)
  next
    case False
    with tocBody_hidden[OF tocContainer_def] obtain pr' rest where
      "tocBody (?hide tocContainer) = Element pr' (tocHeading # rest)" "''d-none'' \<notin> set (classList pr')"
      by blast
    then show ?thesis using False by (simp add: tocHeading_eq)
  qed
  then show ?thesis
    using c sub sub' pg by (auto simp: tocContainer_def)
qed

text \<open>The theorem on the example blog post page, whose setup runs to the end.\<close>

theorem pageSetup_toc_visibility_witness:
  "\<exists>pg. pageSetup blogpostPage = Inr pg \<and>
     (\<exists>c tocContainer tocContainer'.
           document_querySelector (ClassSel ''toc'') blogpostPage = Some c \<and>
           subtree_at blogpostPage c = Some tocContainer \<and>
           subtree_at (document pg) c = Some tocContainer' \<and>
           (hasClass ''d-none'' tocContainer' \<longleftrightarrow> topLevelListEmpty tocContainer) \<and>
           (\<not> topLevelListEmpty tocContainer \<longrightarrow>
              (\<exists>rest. childNodes tocContainer' = tocHeadingNode # rest)))"
proof -
  have "\<not> isl (pageSetup blogpostPage)"
    by code_simp
  then obtain pg where pg: "pageSetup blogpostPage = Inr pg"
    by (cases "pageSetup blogpostPage") auto
  from pageSetup_toc_visibility[OF pg] pg show ?thesis
    by blast
qed

section \<open>Missing elements\<close>




section \<open>Replacement images\<close>

text \<open>
  C8. For every image element the routine processes: when the fetch of its current source
  fails, by a network error or by a body that is not JSON, the element, and with it its
  \<^verbatim>\<open>src\<close> attribute, is left unchanged, and the failure is logged as one error line.
\<close>

theorem fetch_failure_keeps_src:
  assumes "network (requestedUrl imgElement) = Rejected \<or> network (requestedUrl imgElement) = NotJSON"
  shows "fst (fetchReplacementImage network imgElement) = imgElement \<and>
         getAttribute ''src'' (fst (fetchReplacementImage network imgElement)) = getAttribute ''src'' imgElement \<and>
         (\<exists>why. snd (fetchReplacementImage network imgElement) =
            [ConsoleError ''Error fetching replacement image: '' (Some why)])"
  using assms by (auto simp: fetchReplacementImage_def requestedUrl_def Let_def)

text \<open>The theorem for the profile picture when the network is down.\<close>

theorem fetch_failure_keeps_src_witness:
  "offline (requestedUrl avatar) = Rejected \<and>
   fst (fetchReplacementImage offline avatar) = avatar \<and>
   getAttribute ''src'' (fst (fetchReplacementImage offline avatar)) = Some ''/avatar/u1'' \<and>
   (\<exists>why. snd (fetchReplacementImage offline avatar) =
            [ConsoleError ''Error fetching replacement image: '' (Some why)])"
proof -
  have h: "offline (requestedUrl avatar) = Rejected"
    by (simp add: offline_def)
  have src: "getAttribute ''src'' avatar = Some ''/avatar/u1''"
    by code_simp
  from fetch_failure_keeps_src[of offline avatar] h src show ?thesis
    by simp
qed

text \<open>
  C10. When the fetch succeeds with a parsed JSON body: if the body carries a truthy
  \<^verbatim>\<open>imageUrl\<close>, the \<^verbatim>\<open>src\<close> attribute becomes that value and nothing is logged; in every other
  case (no such property, a falsy one, a null body) the element is left unchanged and one
  error line is logged.
\<close>

theorem imageUrl_decides_src:
  assumes "isElement imgElement" and "network (requestedUrl imgElement) = Json data"
  shows "case truthyImageUrl data of
           Some url \<Rightarrow>
             getAttribute ''src'' (fst (fetchReplacementImage network imgElement)) = Some url \<and>
             fst (fetchReplacementImage network imgElement) = setAttribute ''src'' url imgElement \<and>
             snd (fetchReplacementImage network imgElement) = []
         | None \<Rightarrow>
             fst (fetchReplacementImage network imgElement) = imgElement \<and>
             (\<exists>message why. snd (fetchReplacementImage network imgElement) = [ConsoleError message why])"
  using assms
  by (auto simp: fetchReplacementImage_def requestedUrl_def truthyImageUrl_def Let_def
      getAttribute_setAttribute split: sum.splits option.splits)

text \<open>The theorem for the profile picture and the server that knows it.\<close>

theorem imageUrl_decides_src_witness:
  "isElement avatar \<and>
   avatarServer (requestedUrl avatar) = Json (JObject [(''imageUrl'', JString ''/img/u1.png'')]) \<and>
   truthyImageUrl (JObject [(''imageUrl'', JString ''/img/u1.png'')]) = Some ''/img/u1.png'' \<and>
   getAttribute ''src'' (fst (fetchReplacementImage avatarServer avatar)) = Some ''/img/u1.png'' \<and>
   snd (fetchReplacementImage avatarServer avatar) = []"
proof -
  have el: "isElement avatar"
    by code_simp
  have resp: "avatarServer (requestedUrl avatar) = Json (JObject [(''imageUrl'', JString ''/img/u1.png'')])"
    by code_simp
  have url: "truthyImageUrl (JObject [(''imageUrl'', JString ''/img/u1.png'')]) = Some ''/img/u1.png''"
    by code_simp
  from imageUrl_decides_src[of avatar avatarServer, OF el resp] el resp url show ?thesis
    by auto
qed

section \<open>The Enter key in the comment form\<close>

text \<open>
  C9. Once the \<^verbatim>\<open>DOMContentLoaded\<close> listener of blogpost.js has run, a \<^verbatim>\<open>keypress\<close> event
  dispatched on the comment form runs \<^verbatim>\<open>preventFormEnter\<close>: when its key is \<^verbatim>\<open>Enter\<close> the
  default action is prevented, and with any other key the event is left as it was.
\<close>

theorem enter_keypress_prevented:
  assumes "blogpostLoaded doc = Inr pg"
  shows "\<exists>form. getElementById ''comment-form'' doc = Some form \<and>
           (\<forall>event. key event = ''Enter'' \<longrightarrow>
              defaultPrevented (dispatchEvent (effects pg) (ElementAt form) ''keypress'' event) \<and>
              dispatchEvent (effects pg) (ElementAt form) ''keypress'' event = preventFormEnter event) \<and>
           (\<forall>event. key event \<noteq> ''Enter'' \<longrightarrow>
              dispatchEvent (effects pg) (ElementAt form) ''keypress'' event = event \<and>
              preventFormEnter event = event)"
proof -
  from assms obtain form timer commentTextarea where form: "getElementById ''comment-form'' doc = Some form"
    and pg: "effects pg = map (\<lambda>img. Start (FetchReplacementImage img))
                     (document_querySelectorAll (ClassSel ''ajax-profile-pic'') doc) @
        [SetTimeout timer 30000, SetValue commentTextarea [],
         AddEventListener (ElementAt form) ''keypress'' PreventFormEnter]"
    by (auto simp: blogpostLoaded_def Let_def split: option.splits sum.splits)
  have "dispatchEvent (effects pg) (ElementAt form) ''keypress'' event = preventFormEnter event" for event
    by (simp add: dispatchEvent_def pg runListener_started)
  then show ?thesis
    using form by (auto simp: preventFormEnter_def preventDefault_def)
qed

text \<open>The theorem on the example page: Enter is suppressed, the letter a is not.\<close>

theorem enter_keypress_prevented_witness:
  "\<exists>pg. blogpostLoaded blogpostPage = Inr pg \<and>
     getElementById ''comment-form'' blogpostPage = Some [2] \<and>
     defaultPrevented (dispatchEvent (effects pg) (ElementAt [2]) ''keypress''
        \<lparr>key = ''Enter'', defaultPrevented = False\<rparr>) \<and>
     dispatchEvent (effects pg) (ElementAt [2]) ''keypress'' \<lparr>key = ''a'', defaultPrevented = False\<rparr>
       = \<lparr>key = ''a'', defaultPrevented = False\<rparr>"
proof -
  have "\<not> isl (blogpostLoaded blogpostPage)"
    by code_simp
  then obtain pg where pg: "blogpostLoaded blogpostPage = Inr pg"
    by (cases "blogpostLoaded blogpostPage") auto
  have form: "getElementById ''comment-form'' blogpostPage = Some [2]"
    by code_simp
  from enter_keypress_prevented[OF pg] form
  have enter: "key event = ''Enter'' \<longrightarrow>
      defaultPrevented (dispatchEvent (effects pg) (ElementAt [2]) ''keypress'' event)"
    and other: "key event \<noteq> ''Enter'' \<longrightarrow>
      dispatchEvent (effects pg) (ElementAt [2]) ''keypress'' event = event" for event
    by auto
  from enter[of "\<lparr>key = ''Enter'', defaultPrevented = False\<rparr>"]
    other[of "\<lparr>key = ''a'', defaultPrevented = False\<rparr>"] form pg
  show ?thesis
    by simp
qed

section \<open>Local time\<close>





section \<open>Counts\<close>



end
